theory Spec2Isabelle
  imports Main "HOL-Library.Word"
begin

section \<open>Bytes and buffers\<close>

text \<open>
  A Node \<open>Buffer\<close> is a fixed-length sequence of bytes. The builder uses four of its
  operations: \<open>Buffer.from([1])\<close>, \<open>Buffer.alloc(1000)\<close> (zero filled),
  \<open>Buffer.concat\<close> and \<open>slice(0, end)\<close>.
\<close>

type_synonym byte = "8 word"
type_synonym Buffer = "byte list"

definition Buffer_from :: "nat list \<Rightarrow> Buffer" where
  "Buffer_from ns = map of_nat ns"

definition Buffer_alloc :: "nat \<Rightarrow> Buffer" where
  "Buffer_alloc n = replicate n 0"

definition Buffer_concat :: "Buffer list \<Rightarrow> Buffer" where
  "Buffer_concat bs = concat bs"

text \<open>\<open>b.slice(start, end)\<close> with non-negative bounds; both are clamped to the length.\<close>

definition Buffer_slice :: "Buffer \<Rightarrow> nat \<Rightarrow> nat \<Rightarrow> Buffer" where
  "Buffer_slice b start end = drop start (take end b)"

section \<open>Errors\<close>

text \<open>
  The error taxonomy of the codec. \<open>RangeError\<close> is what a bounds-checked write past the
  end of a destination buffer raises. \<open>TypeError\<close> is JavaScript's error for reading a
  property of \<open>undefined\<close>.
\<close>

datatype error =
    EncodingError
  | DecodingError
  | RangeError
  | TypeError
  | MissingAccountError string
  | DuplicateRoleError string

section \<open>Layout library\<close>

text \<open>
  Modelled from the spec: the layout library (\<open>@coral-xyz/borsh\<close>, imported on line 83 of
  the builder) and the module \<open>types\<close> with \<open>AddLiquidityIxParams\<close> are not among the
  source files. The primitives below are the kinds the specification lists for the
  layout library: unsigned and signed integers of a fixed width (in bytes, little
  endian), booleans, fixed-length byte arrays, variable-length byte sequences with a
  length prefix, option-wrapped values with a presence tag, nested records and
  sequences of a sub-layout. Length prefixes are four bytes wide, as in borsh.
\<close>

datatype Layout =
    UInt nat
  | SInt nat
  | BoolL
  | Blob nat
  | VecU8
  | OptionL Layout
  | Struct "(string \<times> Layout) list"
  | Vec Layout

text \<open>
  Modelled from the spec: the structured values a layout encodes (the library's value
  types are not among the source files). A record value lists its fields in the order
  of the schema ("conforming exactly to a TypeSchema, no missing or extra fields"); an
  optional value is an explicit sum, absent or present.
\<close>

datatype val =
    VInt int
  | VBool bool
  | VBytes "byte list"
  | VNone
  | VSome val
  | VRec "(string \<times> val) list"
  | VSeq "val list"

text \<open>
  Modelled from the spec: the little-endian bytes of an unsigned integer at a given
  width, and the integer that a little-endian byte sequence stands for ("little-endian
  for multi-byte integers"); the integer primitives of the library are not among the
  source files.
\<close>

fun le_bytes :: "nat \<Rightarrow> nat \<Rightarrow> byte list" where
  "le_bytes 0 n = []"
| "le_bytes (Suc w) n = of_nat (n mod 256) # le_bytes w (n div 256)"

fun le_nat :: "byte list \<Rightarrow> nat" where
  "le_nat [] = 0"
| "le_nat (b # bs) = unat b + 256 * le_nat bs"

text \<open>
  Modelled from the spec: \<open>toBytes\<close> of a type schema, absent from the source files. It
  is the canonical binary form of a value under a layout: fields in declaration order,
  packed, no padding; \<open>None\<close> when the value is not one the layout accepts (wrong kind,
  integer out of the declared width, wrong length, more elements than the length
  prefix can count, field names that differ from the schema's).
\<close>

fun toBytes :: "Layout \<Rightarrow> val \<Rightarrow> byte list option"
  and toBytes_fields :: "(string \<times> Layout) list \<Rightarrow> (string \<times> val) list \<Rightarrow> byte list option"
  and toBytes_seq :: "Layout \<Rightarrow> val list \<Rightarrow> byte list option"
where
  "toBytes (UInt w) v =
     (case v of
        VInt i \<Rightarrow> if 0 \<le> i \<and> i < 2 ^ (8 * w) then Some (le_bytes w (nat i)) else None
      | _ \<Rightarrow> None)"
| "toBytes (SInt w) v =
     (case v of
        VInt i \<Rightarrow>
          if - (2 ^ (8 * w) div 2) \<le> i \<and> i < 2 ^ (8 * w) div 2
          then Some (le_bytes w (nat (i mod 2 ^ (8 * w)))) else None
      | _ \<Rightarrow> None)"
| "toBytes BoolL v =
     (case v of VBool b \<Rightarrow> Some [if b then 1 else 0] | _ \<Rightarrow> None)"
| "toBytes (Blob n) v =
     (case v of VBytes bs \<Rightarrow> if length bs = n then Some bs else None | _ \<Rightarrow> None)"
| "toBytes VecU8 v =
     (case v of
        VBytes bs \<Rightarrow> if length bs < 2 ^ 32 then Some (le_bytes 4 (length bs) @ bs) else None
      | _ \<Rightarrow> None)"
| "toBytes (OptionL l) v =
     (case v of
        VNone \<Rightarrow> Some [0]
      | VSome x \<Rightarrow> (case toBytes l x of None \<Rightarrow> None | Some bs \<Rightarrow> Some (1 # bs))
      | _ \<Rightarrow> None)"
| "toBytes (Struct fs) v =
     (case v of VRec kvs \<Rightarrow> toBytes_fields fs kvs | _ \<Rightarrow> None)"
| "toBytes (Vec l) v =
     (case v of
        VSeq vs \<Rightarrow>
          if length vs < 2 ^ 32
          then (case toBytes_seq l vs of None \<Rightarrow> None
                | Some bs \<Rightarrow> Some (le_bytes 4 (length vs) @ bs))
          else None
      | _ \<Rightarrow> None)"
| "toBytes_fields [] kvs = (case kvs of [] \<Rightarrow> Some [] | _ \<Rightarrow> None)"
| "toBytes_fields ((n, l) # fs) kvs =
     (case kvs of
        [] \<Rightarrow> None
      | (m, v) # kvs' \<Rightarrow>
          if n = m
          then (case toBytes l v of None \<Rightarrow> None
                | Some b \<Rightarrow> (case toBytes_fields fs kvs' of None \<Rightarrow> None
                             | Some bs \<Rightarrow> Some (b @ bs)))
          else None)"
| "toBytes_seq l [] = Some []"
| "toBytes_seq l (v # vs) =
     (case toBytes l v of None \<Rightarrow> None
      | Some b \<Rightarrow> (case toBytes_seq l vs of None \<Rightarrow> None
                   | Some bs \<Rightarrow> Some (b @ bs)))"

text \<open>
  Modelled from the spec: \<open>fromBytes\<close> of a type schema, absent from the source files.
  \<open>parse\<close> reads one value of a layout from the front of a byte sequence and returns
  it with the bytes that follow; \<open>None\<close> when the input is truncated or a tag byte is
  not a known variant.
\<close>

fun parse :: "Layout \<Rightarrow> byte list \<Rightarrow> (val \<times> byte list) option"
  and parse_fields ::
    "(string \<times> Layout) list \<Rightarrow> byte list \<Rightarrow> ((string \<times> val) list \<times> byte list) option"
  and parse_seq :: "Layout \<Rightarrow> nat \<Rightarrow> byte list \<Rightarrow> (val list \<times> byte list) option"
where
  "parse (UInt w) bs =
     (if length bs < w then None
      else Some (VInt (int (le_nat (take w bs))), drop w bs))"
| "parse (SInt w) bs =
     (if length bs < w then None
      else (let n = le_nat (take w bs)
            in Some (VInt (if n < 2 ^ (8 * w) div 2 then int n else int n - 2 ^ (8 * w)),
                     drop w bs)))"
| "parse BoolL bs =
     (case bs of
        [] \<Rightarrow> None
      | b # r \<Rightarrow>
          if b = 0 then Some (VBool False, r)
          else if b = 1 then Some (VBool True, r)
          else None)"
| "parse (Blob n) bs =
     (if length bs < n then None else Some (VBytes (take n bs), drop n bs))"
| "parse VecU8 bs =
     (if length bs < 4 then None
      else (let n = le_nat (take 4 bs); r = drop 4 bs
            in if length r < n then None else Some (VBytes (take n r), drop n r)))"
| "parse (OptionL l) bs =
     (case bs of
        [] \<Rightarrow> None
      | b # r \<Rightarrow>
          if b = 0 then Some (VNone, r)
          else if b = 1
          then (case parse l r of None \<Rightarrow> None | Some (v, r') \<Rightarrow> Some (VSome v, r'))
          else None)"
| "parse (Struct fs) bs =
     (case parse_fields fs bs of None \<Rightarrow> None | Some (kvs, r) \<Rightarrow> Some (VRec kvs, r))"
| "parse (Vec l) bs =
     (if length bs < 4 then None
      else (case parse_seq l (le_nat (take 4 bs)) (drop 4 bs) of
              None \<Rightarrow> None
            | Some (vs, r) \<Rightarrow> Some (VSeq vs, r)))"
| "parse_fields [] bs = Some ([], bs)"
| "parse_fields ((n, l) # fs) bs =
     (case parse l bs of
        None \<Rightarrow> None
      | Some (v, r) \<Rightarrow>
          (case parse_fields fs r of
             None \<Rightarrow> None
           | Some (kvs, r') \<Rightarrow> Some ((n, v) # kvs, r')))"
| "parse_seq l 0 bs = Some ([], bs)"
| "parse_seq l (Suc k) bs =
     (case parse l bs of
        None \<Rightarrow> None
      | Some (v, r) \<Rightarrow>
          (case parse_seq l k r of
             None \<Rightarrow> None
           | Some (vs, r') \<Rightarrow> Some (v # vs, r')))"

text \<open>
  Modelled from the spec: \<open>encode(value, destinationBuffer, offset)\<close> of the layout
  library, absent from the source files. It writes the canonical form of the value into
  the destination buffer at the offset and returns the number of bytes written. It
  fails with \<open>EncodingError\<close> when the layout does not accept the value. The
  specification does not say what happens when the bytes do not fit between the offset
  and the end of the buffer; a buffer never grows, and the bounds-checked writes of a
  Node \<open>Buffer\<close> raise a range error, which is what \<open>encode\<close> does here.
\<close>

definition encode :: "Layout \<Rightarrow> val \<Rightarrow> Buffer \<Rightarrow> nat \<Rightarrow> error + (Buffer \<times> nat)" where
  "encode l v b offset =
     (case toBytes l v of
        None \<Rightarrow> Inl EncodingError
      | Some bs \<Rightarrow>
          if offset + length bs \<le> length b
          then Inr (take offset b @ bs @ drop (offset + length bs) b, length bs)
          else Inl RangeError)"

text \<open>
  Modelled from the spec: \<open>decode(sourceBuffer, offset)\<close> of the layout library, absent
  from the source files. It reads a value at the offset and returns it with the number
  of bytes read; it fails with \<open>DecodingError\<close> on truncated input and on an unknown tag.
\<close>

definition decode :: "Layout \<Rightarrow> Buffer \<Rightarrow> nat \<Rightarrow> error + (val \<times> nat)" where
  "decode l b offset =
     (if length b < offset then Inl DecodingError
      else (case parse l (drop offset b) of
              None \<Rightarrow> Inl DecodingError
            | Some (v, r) \<Rightarrow> Inr (v, length b - offset - length r)))"

section \<open>Program identity\<close>

text \<open>
  \<open>src/sdk/typescript/generated/programId.ts\<close>. A public key is identified by its
  base-58 text.
\<close>

datatype PublicKey = PublicKey string

definition PROGRAM_ID_IDL :: PublicKey where
  "PROGRAM_ID_IDL = PublicKey ''srAMMzfVHVAtgSJc8iH6CfKzuWuUTzLHVCE81QU1rgi''"

definition PROGRAM_ID :: PublicKey where
  "PROGRAM_ID = PROGRAM_ID_IDL"

section \<open>The AddLiquidity instruction builder\<close>

text \<open>
  The builder is the TypeScript module in \<open>src/unnamed/part_000\<close>, lines 81 to 144; line
  numbers below are lines of that file. First \<open>AccountMeta\<close> and
  \<open>TransactionInstruction\<close> of \<open>@solana/web3.js\<close>, and the two interfaces of the builder. TypeScript declares every role of \<open>AddLiquidityAccounts\<close>
  as a \<open>PublicKey\<close>; at run time a property that the caller left out reads as
  \<open>undefined\<close>, which is \<open>None\<close> here.
\<close>

record AccountMeta =
  pubkey :: "PublicKey option"
  isSigner :: bool
  isWritable :: bool

record TransactionInstruction =
  keys :: "AccountMeta list"
  programId :: PublicKey
  data :: Buffer

record 'p AddLiquidityArgs =
  params :: 'p

record AddLiquidityAccounts =
  plasmaProgram :: "PublicKey option"
  logAuthority :: "PublicKey option"
  pool :: "PublicKey option"
  trader :: "PublicKey option"
  lpPosition :: "PublicKey option"
  baseAccount :: "PublicKey option"
  quoteAccount :: "PublicKey option"
  baseVault :: "PublicKey option"
  quoteVault :: "PublicKey option"
  tokenProgram :: "PublicKey option"

text \<open>
  Modelled from the spec: \<open>types.AddLiquidityIxParams\<close> is not among the source files.
  The builder uses two members of it, \<open>layout(property)\<close> and \<open>toEncodable(fields)\<close>;
  they are taken as a parameter: any layout of the library, and any function from the
  caller's parameter record to an encodable value.
\<close>

record 'p IxParamsType =
  paramsLayout :: Layout
  toEncodable :: "'p \<Rightarrow> val"

text \<open>Line 112: \<open>borsh.struct([types.AddLiquidityIxParams.layout("params")])\<close>.\<close>

definition layout :: "'p IxParamsType \<Rightarrow> Layout" where
  "layout T = Struct [(''params'', paramsLayout T)]"

text \<open>
  Lines 121 to 132: the account metas of the action, one per role, with the flags the
  builder writes next to each role.
\<close>

definition AddLiquidity_keys :: "AddLiquidityAccounts \<Rightarrow> AccountMeta list" where
  "AddLiquidity_keys accounts =
     [\<lparr>pubkey = plasmaProgram accounts, isSigner = False, isWritable = False\<rparr>,
      \<lparr>pubkey = logAuthority accounts, isSigner = False, isWritable = False\<rparr>,
      \<lparr>pubkey = pool accounts, isSigner = False, isWritable = True\<rparr>,
      \<lparr>pubkey = trader accounts, isSigner = True, isWritable = False\<rparr>,
      \<lparr>pubkey = lpPosition accounts, isSigner = False, isWritable = True\<rparr>,
      \<lparr>pubkey = baseAccount accounts, isSigner = False, isWritable = True\<rparr>,
      \<lparr>pubkey = quoteAccount accounts, isSigner = False, isWritable = True\<rparr>,
      \<lparr>pubkey = baseVault accounts, isSigner = False, isWritable = True\<rparr>,
      \<lparr>pubkey = quoteVault accounts, isSigner = False, isWritable = True\<rparr>,
      \<lparr>pubkey = tokenProgram accounts, isSigner = False, isWritable = False\<rparr>]"

text \<open>
  Lines 116 to 144, with the size of the scratch buffer as a parameter. The last
  argument is the optional \<open>programId\<close>: \<open>None\<close> when the caller omits it. An exception
  thrown by \<open>layout.encode\<close> leaves the builder: the result is \<open>Inl\<close>.
\<close>

definition AddLiquidity_alloc ::
  "nat \<Rightarrow> 'p IxParamsType \<Rightarrow> 'p AddLiquidityArgs \<Rightarrow> AddLiquidityAccounts \<Rightarrow>
   PublicKey option \<Rightarrow> error + TransactionInstruction" where
  "AddLiquidity_alloc scratch T args accounts programId_arg =
     (let programId = (case programId_arg of None \<Rightarrow> PROGRAM_ID | Some p \<Rightarrow> p);
          keys = AddLiquidity_keys accounts;
          identifier = Buffer_from [1];
          buffer = Buffer_alloc scratch
      in case encode (layout T) (VRec [(''params'', toEncodable T (params args))]) buffer 0 of
           Inl e \<Rightarrow> Inl e
         | Inr (buffer', len) \<Rightarrow>
             (let data = Buffer_slice (Buffer_concat [identifier, buffer']) 0 (1 + len);
                  ix = \<lparr>keys = keys, programId = programId, data = data\<rparr>
              in Inr ix))"

text \<open>Line 134: the builder allocates \<open>Buffer.alloc(1000)\<close>.\<close>

definition AddLiquidity ::
  "'p IxParamsType \<Rightarrow> 'p AddLiquidityArgs \<Rightarrow> AddLiquidityAccounts \<Rightarrow>
   PublicKey option \<Rightarrow> error + TransactionInstruction" where
  "AddLiquidity = AddLiquidity_alloc 1000"

section \<open>The builder on a store of objects\<close>

text \<open>
  The builder again, statement by statement, on an explicit store: every JavaScript
  object lives at an address, \<open>args\<close> and \<open>accounts\<close> are passed by reference, and each
  object literal, array literal, \<open>Buffer\<close> operation and \<open>new\<close> allocates. A public key
  is never looked into by the builder and is carried as a value.

  The store is the list of all objects allocated so far; the address of an object is
  its position. Allocation appends, so an allocated address is never reused.
\<close>

type_synonym addr = nat

datatype 'p obj =
    Args addr
  | Params 'p
  | Accounts AddLiquidityAccounts
  | Meta AccountMeta
  | Array "addr list"
  | Buf Buffer
  | Encodable val
  | Instruction addr PublicKey addr

type_synonym 'p store = "'p obj list"

type_synonym ('a, 'p) action = "'p store \<Rightarrow> (error + 'a) \<times> 'p store"

definition ret :: "'a \<Rightarrow> ('a, 'p) action" where
  "ret x h = (Inr x, h)"

definition throw :: "error \<Rightarrow> ('a, 'p) action" where
  "throw e h = (Inl e, h)"

definition bnd :: "('a, 'p) action \<Rightarrow> ('a \<Rightarrow> ('b, 'p) action) \<Rightarrow> ('b, 'p) action" where
  "bnd m f h = (case m h of (Inl e, h') \<Rightarrow> (Inl e, h') | (Inr x, h') \<Rightarrow> f x h')"

definition lookup :: "'p store \<Rightarrow> addr \<Rightarrow> 'p obj option" where
  "lookup h a = (if a < length h then Some (h ! a) else None)"

definition alloc :: "'p obj \<Rightarrow> (addr, 'p) action" where
  "alloc x h = (Inr (length h), h @ [x])"

text \<open>An array or object literal with several fresh members: they are allocated in order.\<close>

definition alloc_list :: "'p obj list \<Rightarrow> (addr list, 'p) action" where
  "alloc_list xs h = (Inr [length h ..< length h + length xs], h @ xs)"

text \<open>
  Reading a property of a reference that does not lead to an object of the declared
  type (\<open>undefined\<close>, for instance) raises \<open>TypeError\<close>.
\<close>

definition read_accounts :: "addr \<Rightarrow> (AddLiquidityAccounts, 'p) action" where
  "read_accounts a h =
     (case lookup h a of Some (Accounts acc) \<Rightarrow> (Inr acc, h) | _ \<Rightarrow> (Inl TypeError, h))"

text \<open>
  \<open>args.params\<close>, and the fields of the params record that \<open>toEncodable\<close> reads;
  \<open>toEncodable\<close> only reads the record it is given.
\<close>

definition read_params :: "addr \<Rightarrow> ('p, 'p) action" where
  "read_params a h =
     (case lookup h a of
        Some (Args r) \<Rightarrow>
          (case lookup h r of Some (Params p) \<Rightarrow> (Inr p, h) | _ \<Rightarrow> (Inl TypeError, h))
      | _ \<Rightarrow> (Inl TypeError, h))"

definition read_buffer :: "addr \<Rightarrow> (Buffer, 'p) action" where
  "read_buffer a h =
     (case lookup h a of Some (Buf bytes) \<Rightarrow> (Inr bytes, h) | _ \<Rightarrow> (Inl TypeError, h))"

text \<open>
  Modelled from the spec: \<open>layout.encode(src, b)\<close> on the store (the layout library is
  not among the source files). It reads the encodable object, writes into the buffer
  object \<open>b\<close> in place and returns the number of bytes written; it touches no other
  object ("every call operates on caller-owned inputs").
\<close>

definition layout_encode :: "Layout \<Rightarrow> addr \<Rightarrow> addr \<Rightarrow> (nat, 'p) action" where
  "layout_encode l src b h =
     (case (lookup h src, lookup h b) of
        (Some (Encodable v), Some (Buf bytes)) \<Rightarrow>
          (case encode l v bytes 0 of
             Inl e \<Rightarrow> (Inl e, h)
           | Inr (bytes', len) \<Rightarrow> (Inr len, h[b := Buf bytes']))
      | _ \<Rightarrow> (Inl TypeError, h))"

text \<open>
  \<open>Buffer.concat([x, y])\<close> allocates a new buffer. \<open>b.slice(start, end)\<close> allocates a new
  \<open>Buffer\<close> object over the memory of \<open>b\<close>; here it has its own copy of the bytes.
\<close>

definition Buffer_concat2 :: "addr \<Rightarrow> addr \<Rightarrow> (addr, 'p) action" where
  "Buffer_concat2 x y =
     bnd (read_buffer x) (\<lambda>xs.
     bnd (read_buffer y) (\<lambda>ys.
     alloc (Buf (Buffer_concat [xs, ys]))))"

definition Buffer_slice_new :: "addr \<Rightarrow> nat \<Rightarrow> nat \<Rightarrow> (addr, 'p) action" where
  "Buffer_slice_new b start end =
     bnd (read_buffer b) (\<lambda>bytes.
     alloc (Buf (Buffer_slice bytes start end)))"

text \<open>Lines 116 to 144, one line of the definition per statement of the builder.\<close>

definition AddLiquidity_heap ::
  "'p IxParamsType \<Rightarrow> addr \<Rightarrow> addr \<Rightarrow> PublicKey option \<Rightarrow> (addr, 'p) action" where
  "AddLiquidity_heap T args accounts programId_arg =
     (let programId = (case programId_arg of None \<Rightarrow> PROGRAM_ID | Some p \<Rightarrow> p) in
      bnd (read_accounts accounts) (\<lambda>acc.
      bnd (alloc_list (map Meta (AddLiquidity_keys acc))) (\<lambda>metas.
      bnd (alloc (Array metas)) (\<lambda>keys.
      bnd (alloc (Buf (Buffer_from [1]))) (\<lambda>identifier.
      bnd (alloc (Buf (Buffer_alloc 1000))) (\<lambda>buffer.
      bnd (read_params args) (\<lambda>ps.
      bnd (alloc (Encodable (VRec [(''params'', toEncodable T ps)]))) (\<lambda>src.
      bnd (layout_encode (layout T) src buffer) (\<lambda>len.
      bnd (Buffer_concat2 identifier buffer) (\<lambda>joined.
      bnd (Buffer_slice_new joined 0 (1 + len)) (\<lambda>data.
      bnd (alloc (Instruction keys programId data)) (\<lambda>ix.
      ret ix))))))))))))"

text \<open>The objects a caller passes in: arguments, params records and bindings.\<close>

fun is_input :: "'p obj \<Rightarrow> bool" where
  "is_input (Args r) = True"
| "is_input (Params p) = True"
| "is_input (Accounts acc) = True"
| "is_input _ = False"

text \<open>
  What a caller sees through a reference: the arguments and the binding before a call,
  the instruction after it.
\<close>

definition args_at :: "'p store \<Rightarrow> addr \<Rightarrow> 'p AddLiquidityArgs option" where
  "args_at h a =
     (case lookup h a of
        Some (Args r) \<Rightarrow>
          (case lookup h r of Some (Params p) \<Rightarrow> Some \<lparr>params = p\<rparr> | _ \<Rightarrow> None)
      | _ \<Rightarrow> None)"

definition accounts_at :: "'p store \<Rightarrow> addr \<Rightarrow> AddLiquidityAccounts option" where
  "accounts_at h a = (case lookup h a of Some (Accounts acc) \<Rightarrow> Some acc | _ \<Rightarrow> None)"

definition meta_at :: "'p store \<Rightarrow> addr \<Rightarrow> AccountMeta option" where
  "meta_at h a = (case lookup h a of Some (Meta m) \<Rightarrow> Some m | _ \<Rightarrow> None)"

definition instruction_at :: "'p store \<Rightarrow> addr \<Rightarrow> TransactionInstruction option" where
  "instruction_at h a =
     (case lookup h a of
        Some (Instruction k pid d) \<Rightarrow>
          (case (lookup h k, lookup h d) of
             (Some (Array ms), Some (Buf bytes)) \<Rightarrow>
               (case those (map (meta_at h) ms) of
                  Some metas \<Rightarrow> Some \<lparr>keys = metas, programId = pid, data = bytes\<rparr>
                | None \<Rightarrow> None)
           | _ \<Rightarrow> None)
      | _ \<Rightarrow> None)"

text \<open>The outcome of a call as the caller observes it: the error, or the instruction.\<close>

definition observed :: "(error + addr) \<times> 'p store \<Rightarrow> error + TransactionInstruction option" where
  "observed res = (case res of (Inl e, h) \<Rightarrow> Inl e | (Inr ix, h) \<Rightarrow> Inr (instruction_at h ix))"

section \<open>Example inputs\<close>

text \<open>
  The order scenario of the specification: a schema of a 64-bit price, a 64-bit size
  and a one-byte side tag, and the record with price 100, size 50 and side Bid (tag 0).
  The record is already in encodable form.
\<close>

definition order_params :: "val IxParamsType" where
  "order_params =
     \<lparr>paramsLayout = Struct [(''price'', UInt 8), (''size'', UInt 8), (''side'', UInt 1)],
      toEncodable = (\<lambda>fields. fields)\<rparr>"

definition order_args :: "val AddLiquidityArgs" where
  "order_args =
     \<lparr>params = VRec [(''price'', VInt 100), (''size'', VInt 50), (''side'', VInt 0)]\<rparr>"

definition order_bytes :: "byte list" where
  "order_bytes = [100, 0, 0, 0, 0, 0, 0, 0, 50, 0, 0, 0, 0, 0, 0, 0, 0]"

text \<open>A schema with one variable-length field, and a value of it 1001 bytes long.\<close>

definition bytes_params :: "val IxParamsType" where
  "bytes_params = \<lparr>paramsLayout = VecU8, toEncodable = (\<lambda>fields. fields)\<rparr>"

definition long_args :: "val AddLiquidityArgs" where
  "long_args = \<lparr>params = VBytes (replicate 1001 0)\<rparr>"

text \<open>A binding of all ten roles, and the same binding without the quote vault.\<close>

definition all_accounts :: AddLiquidityAccounts where
  "all_accounts =
     \<lparr>plasmaProgram = Some (PublicKey ''plasmaProgram''),
      logAuthority = Some (PublicKey ''logAuthority''),
      pool = Some (PublicKey ''pool''),
      trader = Some (PublicKey ''trader''),
      lpPosition = Some (PublicKey ''lpPosition''),
      baseAccount = Some (PublicKey ''baseAccount''),
      quoteAccount = Some (PublicKey ''quoteAccount''),
      baseVault = Some (PublicKey ''baseVault''),
      quoteVault = Some (PublicKey ''quoteVault''),
      tokenProgram = Some (PublicKey ''tokenProgram'')\<rparr>"

definition no_quoteVault :: AddLiquidityAccounts where
  "no_quoteVault = all_accounts\<lparr>quoteVault := None\<rparr>"

text \<open>The instructions expected for the order record under the two bindings.\<close>

definition order_instruction :: TransactionInstruction where
  "order_instruction =
     \<lparr>keys =
        [\<lparr>pubkey = Some (PublicKey ''plasmaProgram''), isSigner = False, isWritable = False\<rparr>,
         \<lparr>pubkey = Some (PublicKey ''logAuthority''), isSigner = False, isWritable = False\<rparr>,
         \<lparr>pubkey = Some (PublicKey ''pool''), isSigner = False, isWritable = True\<rparr>,
         \<lparr>pubkey = Some (PublicKey ''trader''), isSigner = True, isWritable = False\<rparr>,
         \<lparr>pubkey = Some (PublicKey ''lpPosition''), isSigner = False, isWritable = True\<rparr>,
         \<lparr>pubkey = Some (PublicKey ''baseAccount''), isSigner = False, isWritable = True\<rparr>,
         \<lparr>pubkey = Some (PublicKey ''quoteAccount''), isSigner = False, isWritable = True\<rparr>,
         \<lparr>pubkey = Some (PublicKey ''baseVault''), isSigner = False, isWritable = True\<rparr>,
         \<lparr>pubkey = Some (PublicKey ''quoteVault''), isSigner = False, isWritable = True\<rparr>,
         \<lparr>pubkey = Some (PublicKey ''tokenProgram''), isSigner = False, isWritable = False\<rparr>],
      programId = PublicKey ''srAMMzfVHVAtgSJc8iH6CfKzuWuUTzLHVCE81QU1rgi'',
      data = [1, 100, 0, 0, 0, 0, 0, 0, 0, 50, 0, 0, 0, 0, 0, 0, 0, 0]\<rparr>"

definition no_quoteVault_instruction :: TransactionInstruction where
  "no_quoteVault_instruction =
     order_instruction
       \<lparr>keys := (keys order_instruction)
          [8 := \<lparr>pubkey = None, isSigner = False, isWritable = True\<rparr>]\<rparr>"

text \<open>
  Two stores that hold the order record and the full binding at different addresses,
  the second next to an unrelated buffer.
\<close>

definition order_store :: "val store" where
  "order_store = [Params (params order_args), Args 0, Accounts all_accounts]"

definition other_store :: "val store" where
  "other_store = [Accounts all_accounts, Buf [7], Params (params order_args), Args 2]"

text \<open>The first store after the builder has run on the references 1 and 2.\<close>

definition order_store_after :: "val store" where
  "order_store_after =
     order_store @ map Meta (keys order_instruction)
       @ [Array [3 ..< 13],
          Buf [1],
          Buf (order_bytes @ replicate 983 0),
          Encodable (VRec [(''params'', params order_args)]),
          Buf (1 # order_bytes @ replicate 983 0),
          Buf (data order_instruction),
          Instruction 13 (programId order_instruction) 18]"

section \<open>The layout library: encoding and decoding agree\<close>

lemma length_le_bytes: "length (le_bytes w n) = w"
  by (induction w arbitrary: n) simp_all

lemma le_nat_le_bytes: "n < 256 ^ w \<Longrightarrow> le_nat (le_bytes w n) = n"
proof (induction w arbitrary: n)
  case 0
  then show ?case by simp
next
  case (Suc w)
  then have "n div 256 < 256 ^ w"
    by (simp add: less_mult_imp_div_less mult.commute)
  then have "le_nat (le_bytes w (n div 256)) = n div 256"
    by (rule Suc.IH)
  then show ?case
    by (simp add: unat_of_nat)
qed

lemma pow_256: "(2::nat) ^ (8 * w) = 256 ^ w"
  by (simp add: power_mult)

lemma uint_roundtrip:
  assumes "0 \<le> i" "i < 2 ^ (8 * w)"
  shows "int (le_nat (le_bytes w (nat i))) = i"
proof -
  have "nat i < 2 ^ (8 * w)"
    using assms by (simp add: nat_less_iff)
  then have "le_nat (le_bytes w (nat i)) = nat i"
    by (simp add: le_nat_le_bytes pow_256)
  then show ?thesis using assms by simp
qed

lemma sint_roundtrip:
  fixes i :: int
  assumes lo: "- (2 ^ (8 * w) div 2) \<le> i" and hi: "i < 2 ^ (8 * w) div 2"
  shows "le_nat (le_bytes w (nat (i mod 2 ^ (8 * w)))) < 2 ^ (8 * w) div 2 \<Longrightarrow>
           int (le_nat (le_bytes w (nat (i mod 2 ^ (8 * w))))) = i"
    and "\<not> le_nat (le_bytes w (nat (i mod 2 ^ (8 * w)))) < 2 ^ (8 * w) div 2 \<Longrightarrow>
           int (le_nat (le_bytes w (nat (i mod 2 ^ (8 * w))))) - 2 ^ (8 * w) = i"
proof -
  define M :: int where "M = 2 ^ (8 * w)"
  define n where "n = le_nat (le_bytes w (nat (i mod M)))"
  have Mpos: "0 < M" by (simp add: M_def)
  have half: "2 * (M div 2) \<le> M" by simp
  have lo': "- (M div 2) \<le> i" and hi': "i < M div 2"
    using lo hi by (simp_all add: M_def)
  have "0 \<le> i mod M" using Mpos by simp
  moreover have "i mod M < M" using Mpos by simp
  ultimately have "nat (i mod M) < 2 ^ (8 * w)"
    by (simp add: nat_less_iff M_def)
  then have "n = nat (i mod M)"
    by (simp add: n_def le_nat_le_bytes pow_256)
  with \<open>0 \<le> i mod M\<close> have n: "int n = i mod M" by simp
  have natH: "(n < 2 ^ (8 * w) div 2) = (int n < M div 2)"
  proof -
    have "int (2 ^ (8 * w) div 2) = M div 2"
      by (simp add: M_def zdiv_int)
    then show ?thesis by linarith
  qed
  have imod: "i mod M = (if 0 \<le> i then i else i + M)"
  proof (cases "0 \<le> i")
    case True
    then have "i < M" using hi' half by linarith
    with True show ?thesis by simp
  next
    case False
    then have "0 \<le> i + M" "i + M < M" using lo' half by linarith+
    then have "(i + M) mod M = i + M" by (rule mod_pos_pos_trivial)
    moreover have "(i + M) mod M = i mod M" by simp
    ultimately have "i mod M = i + M" by (simp only:)
    with False show ?thesis by simp
  qed
  have pos: "n < 2 ^ (8 * w) div 2 \<Longrightarrow> int n = i"
    using n natH imod lo' hi' half by (auto split: if_splits)
  have neg: "\<not> n < 2 ^ (8 * w) div 2 \<Longrightarrow> int n - M = i"
    using n natH imod lo' hi' half by (auto split: if_splits)
  show "le_nat (le_bytes w (nat (i mod 2 ^ (8 * w)))) < 2 ^ (8 * w) div 2 \<Longrightarrow>
           int (le_nat (le_bytes w (nat (i mod 2 ^ (8 * w))))) = i"
    using pos by (simp add: n_def M_def)
  show "\<not> le_nat (le_bytes w (nat (i mod 2 ^ (8 * w)))) < 2 ^ (8 * w) div 2 \<Longrightarrow>
           int (le_nat (le_bytes w (nat (i mod 2 ^ (8 * w))))) - 2 ^ (8 * w) = i"
    using neg by (simp add: n_def M_def)
qed

lemma le_nat_prefix: "n < 2 ^ 32 \<Longrightarrow> le_nat (le_bytes 4 n) = n"
  using le_nat_le_bytes [of n 4] by simp

lemma toBytes_parse:
  "toBytes l v = Some bs \<Longrightarrow> parse l (bs @ r) = Some (v, r)"
  "toBytes_fields fs kvs = Some bs \<Longrightarrow> parse_fields fs (bs @ r) = Some (kvs, r)"
  "toBytes_seq l vs = Some bs \<Longrightarrow> parse_seq l (length vs) (bs @ r) = Some (vs, r)"
proof (induction l v and fs kvs and l vs arbitrary: bs r and bs r and bs r
       rule: toBytes_toBytes_fields_toBytes_seq.induct)
  case (1 w v)
  then show ?case
    by (auto split: val.splits if_splits simp: length_le_bytes uint_roundtrip)
next
  case (2 w v)
  then show ?case
    by (auto split: val.splits if_splits simp: length_le_bytes sint_roundtrip Let_def)
next
  case (3 v)
  then show ?case by (auto split: val.splits)
next
  case (4 n v)
  then show ?case by (auto split: val.splits if_splits)
next
  case (5 v)
  then show ?case
    by (auto split: val.splits if_splits
        simp: length_le_bytes le_nat_prefix Let_def)
next
  case (6 l v)
  then show ?case by (auto split: val.splits option.splits)
next
  case (7 fs v)
  then show ?case by (auto split: val.splits option.splits)
next
  case (8 l v)
  then show ?case
    by (auto split: val.splits if_splits option.splits
        simp: length_le_bytes le_nat_prefix)
next
  case (9 kvs)
  then show ?case by (auto split: list.splits)
next
  case (10 n l fs kvs)
  then show ?case by (auto split: list.splits option.splits if_splits)
next
  case (11 l)
  then show ?case by simp
next
  case (12 l v vs)
  then show ?case by (auto split: option.splits)
qed

lemma toBytes_layout:
  "toBytes (layout T) (VRec [(''params'', v)]) = toBytes (paramsLayout T) v"
  by (simp add: layout_def split: option.splits)

lemma encode_at_0:
  "encode l v (Buffer_alloc n) 0 =
     (case toBytes l v of
        None \<Rightarrow> Inl EncodingError
      | Some bs \<Rightarrow>
          if length bs \<le> n then Inr (bs @ replicate (n - length bs) 0, length bs)
          else Inl RangeError)"
  by (simp add: encode_def Buffer_alloc_def split: option.splits)

lemma AddLiquidity_alloc_cases:
  "AddLiquidity_alloc n T args accounts p =
     (case toBytes (layout T) (VRec [(''params'', toEncodable T (params args))]) of
        None \<Rightarrow> Inl EncodingError
      | Some bs \<Rightarrow>
          if length bs \<le> n
          then Inr \<lparr>keys = AddLiquidity_keys accounts,
                    programId = (case p of None \<Rightarrow> PROGRAM_ID | Some q \<Rightarrow> q),
                    data = 1 # bs\<rparr>
          else Inl RangeError)"
  by (simp add: AddLiquidity_alloc_def Let_def encode_at_0
      Buffer_slice_def Buffer_concat_def Buffer_from_def
      split: option.splits)

section \<open>The builder, case by case\<close>

lemma le_bytes_numeral:
  "le_bytes (numeral k) n = of_nat (n mod 256) # le_bytes (pred_numeral k) (n div 256)"
proof -
  have "numeral k = Suc (pred_numeral k)" by (rule numeral_eq_Suc)
  then have "le_bytes (numeral k) n = le_bytes (Suc (pred_numeral k)) n" by (rule arg_cong)
  then show ?thesis by (simp only: le_bytes.simps)
qed

lemma AddLiquidity_cases:
  "AddLiquidity T args accounts p =
     (case toBytes (layout T) (VRec [(''params'', toEncodable T (params args))]) of
        None \<Rightarrow> Inl EncodingError
      | Some bs \<Rightarrow>
          if length bs \<le> 1000
          then Inr \<lparr>keys = AddLiquidity_keys accounts,
                    programId = (case p of None \<Rightarrow> PROGRAM_ID | Some q \<Rightarrow> q),
                    data = 1 # bs\<rparr>
          else Inl RangeError)"
  by (simp add: AddLiquidity_def AddLiquidity_alloc_cases)

lemma order_toBytes:
  "toBytes (layout order_params) (VRec [(''params'', toEncodable order_params (params order_args))])
     = Some order_bytes"
  by (simp add: toBytes_layout order_params_def order_args_def order_bytes_def le_bytes_numeral)

lemma long_toBytes:
  "toBytes (layout bytes_params) (VRec [(''params'', toEncodable bytes_params (params long_args))])
     = Some (le_bytes 4 1001 @ replicate 1001 0)"
  by (simp add: toBytes_layout bytes_params_def long_args_def)

lemma AddLiquidity_order:
  "AddLiquidity order_params order_args all_accounts None = Inr order_instruction"
  by (simp add: AddLiquidity_cases order_toBytes)
     (simp add: order_bytes_def order_instruction_def AddLiquidity_keys_def all_accounts_def
        PROGRAM_ID_def PROGRAM_ID_IDL_def)

lemma AddLiquidity_no_quoteVault:
  "AddLiquidity order_params order_args no_quoteVault None = Inr no_quoteVault_instruction"
  by (simp add: AddLiquidity_cases order_toBytes)
     (simp add: order_bytes_def order_instruction_def no_quoteVault_instruction_def
        AddLiquidity_keys_def all_accounts_def no_quoteVault_def
        PROGRAM_ID_def PROGRAM_ID_IDL_def)

lemma AddLiquidity_alloc_order:
  "17 \<le> n \<Longrightarrow>
   AddLiquidity_alloc n order_params order_args all_accounts None = Inr order_instruction"
  by (simp add: AddLiquidity_alloc_cases order_toBytes)
     (simp add: order_bytes_def order_instruction_def AddLiquidity_keys_def all_accounts_def
        PROGRAM_ID_def PROGRAM_ID_IDL_def)

section \<open>The builder on a store, case by case\<close>

lemma bnd_ret: "bnd (ret x) f h = f x h"
  by (simp add: bnd_def ret_def)

lemma bnd_alloc: "bnd (alloc x) f h = f (length h) (h @ [x])"
  by (simp add: bnd_def alloc_def)

lemma bnd_alloc_list:
  "bnd (alloc_list xs) f h = f [length h ..< length h + length xs] (h @ xs)"
  by (simp add: bnd_def alloc_list_def)

lemma bnd_read_accounts:
  "bnd (read_accounts a) f h =
     (case accounts_at h a of None \<Rightarrow> (Inl TypeError, h) | Some acc \<Rightarrow> f acc h)"
  by (simp add: bnd_def read_accounts_def accounts_at_def split: option.splits obj.splits)

lemma bnd_read_params:
  "bnd (read_params a) f h =
     (case args_at h a of None \<Rightarrow> (Inl TypeError, h) | Some x \<Rightarrow> f (params x) h)"
  by (simp add: bnd_def read_params_def args_at_def split: option.splits obj.splits)

lemma bnd_read_buffer:
  "bnd (read_buffer a) f h =
     (case lookup h a of Some (Buf bytes) \<Rightarrow> f bytes h | _ \<Rightarrow> (Inl TypeError, h))"
  by (simp add: bnd_def read_buffer_def split: option.splits obj.splits)

lemma bnd_assoc: "bnd (bnd m f) g = bnd m (\<lambda>x. bnd (f x) g)"
  by (rule ext) (simp add: bnd_def split: prod.splits sum.splits)

lemma bnd_layout_encode:
  "bnd (layout_encode l src b) f h =
     (case (lookup h src, lookup h b) of
        (Some (Encodable v), Some (Buf bytes)) \<Rightarrow>
          (case encode l v bytes 0 of
             Inl e \<Rightarrow> (Inl e, h)
           | Inr (bytes', len) \<Rightarrow> f len (h[b := Buf bytes']))
      | _ \<Rightarrow> (Inl TypeError, h))"
  by (simp add: bnd_def layout_encode_def split: option.splits obj.splits sum.splits prod.splits)

lemma lookup_append:
  "lookup (h @ xs) a = (if a < length h then lookup h a else lookup xs (a - length h))"
  by (auto simp add: lookup_def nth_append)

lemma lookup_in_set: "lookup xs a = Some x \<Longrightarrow> x \<in> set xs"
  by (auto simp: lookup_def split: if_splits)

lemma accounts_at_append:
  assumes "\<forall>x\<in>set xs. \<not> is_input x"
  shows "accounts_at (h @ xs) a = accounts_at h a"
proof (cases "a < length h")
  case True
  then show ?thesis by (simp add: accounts_at_def lookup_append)
next
  case False
  then have "lookup h a = None" by (simp add: lookup_def)
  moreover have "\<And>acc. lookup xs (a - length h) \<noteq> Some (Accounts acc)"
    using assms lookup_in_set by fastforce
  ultimately show ?thesis
    using False by (auto simp add: accounts_at_def lookup_append split: option.splits obj.splits)
qed

lemma args_at_append:
  assumes "\<forall>x\<in>set xs. \<not> is_input x"
  shows "args_at (h @ xs) a = args_at h a"
proof -
  have noargs: "\<And>i r. lookup xs i \<noteq> Some (Args r)"
    using assms lookup_in_set by fastforce
  have noparams: "\<And>i p. lookup xs i \<noteq> Some (Params p)"
    using assms lookup_in_set by fastforce
  have inner: "(case lookup (h @ xs) r of Some (Params p) \<Rightarrow> Some \<lparr>params = p\<rparr> | _ \<Rightarrow> None)
             = (case lookup h r of Some (Params p) \<Rightarrow> Some \<lparr>params = p\<rparr> | _ \<Rightarrow> None)" for r
  proof (cases "r < length h")
    case True
    then show ?thesis by (simp add: lookup_append)
  next
    case False
    then have "lookup h r = None" by (simp add: lookup_def)
    then show ?thesis
      using False noparams [of "r - length h"]
      by (auto simp add: lookup_append split: option.splits obj.splits)
  qed
  show ?thesis
  proof (cases "a < length h")
    case True
    then show ?thesis
      using inner by (simp add: args_at_def lookup_append split: option.splits obj.splits)
  next
    case False
    then have "lookup h a = None" by (simp add: lookup_def)
    then show ?thesis
      using False noargs [of "a - length h"]
      by (auto simp add: args_at_def lookup_append split: option.splits obj.splits)
  qed
qed

lemma length_keys: "length (AddLiquidity_keys acc) = 10"
  by (simp add: AddLiquidity_keys_def)

lemma encode_and_finish:
  assumes b: "lookup g b = Some (Buf (replicate 1000 0))"
    and i: "lookup g i = Some (Buf [1])"
    and ib: "i \<noteq> b"
  shows "bnd (alloc (Encodable v)) (\<lambda>src.
         bnd (layout_encode l src b) (\<lambda>len.
         bnd (Buffer_concat2 i b) (\<lambda>joined.
         bnd (Buffer_slice_new joined 0 (1 + len)) (\<lambda>data.
         bnd (alloc (Instruction k pid data)) (\<lambda>ix.
         ret ix))))) g =
     (case toBytes l v of
        None \<Rightarrow> (Inl EncodingError, g @ [Encodable v])
      | Some bs \<Rightarrow>
          if length bs \<le> 1000
          then (Inr (length g + 3),
                g[b := Buf (bs @ replicate (1000 - length bs) 0)]
                  @ [Encodable v,
                     Buf (1 # bs @ replicate (1000 - length bs) 0),
                     Buf (1 # bs),
                     Instruction k pid (length g + 2)])
          else (Inl RangeError, g @ [Encodable v]))"
proof -
  have bl: "b < length g" and il: "i < length g"
    using b i by (auto simp: lookup_def split: if_splits)
  have l_src: "lookup (g @ [Encodable v]) (length g) = Some (Encodable v)"
    by (simp add: lookup_def)
  have l_b: "lookup (g @ [Encodable v]) b = Some (Buf (replicate 1000 0))"
    using b bl by (simp add: lookup_append)
  have enc: "encode l v (replicate 1000 0) 0 =
     (case toBytes l v of
        None \<Rightarrow> Inl EncodingError
      | Some bs \<Rightarrow>
          if length bs \<le> 1000 then Inr (bs @ replicate (1000 - length bs) 0, length bs)
          else Inl RangeError)"
    using encode_at_0 [of l v 1000] by (simp add: Buffer_alloc_def)
  show ?thesis
  proof (cases "toBytes l v")
    case None
    then show ?thesis
      by (simp add: bnd_alloc bnd_layout_encode l_src l_b enc)
  next
    case (Some bs)
    show ?thesis
    proof (cases "length bs \<le> 1000")
      case False
      then show ?thesis
        using Some by (simp add: bnd_alloc bnd_layout_encode l_src l_b enc)
    next
      case True
      define g6 where "g6 = (g @ [Encodable v])[b := Buf (bs @ replicate (1000 - length bs) 0)]"
      have g6: "g6 = g[b := Buf (bs @ replicate (1000 - length bs) 0)] @ [Encodable v]"
        using bl by (simp add: g6_def list_update_append)
      have len6: "length g6 = length g + 1"
        by (simp add: g6)
      have l6_i: "lookup g6 i = Some (Buf [1])"
        using i il ib by (simp add: g6 lookup_append) (simp add: lookup_def)
      have l6_b: "lookup g6 b = Some (Buf (bs @ replicate (1000 - length bs) 0))"
        using bl by (simp add: g6 lookup_append) (simp add: lookup_def)
      have step1: "bnd (alloc (Encodable v)) (\<lambda>src.
         bnd (layout_encode l src b) (\<lambda>len.
         bnd (Buffer_concat2 i b) (\<lambda>joined.
         bnd (Buffer_slice_new joined 0 (1 + len)) (\<lambda>data.
         bnd (alloc (Instruction k pid data)) (\<lambda>ix.
         ret ix))))) g
        = bnd (Buffer_concat2 i b) (\<lambda>joined.
          bnd (Buffer_slice_new joined 0 (1 + length bs)) (\<lambda>data.
          bnd (alloc (Instruction k pid data)) (\<lambda>ix.
          ret ix))) g6"
        using Some True by (simp add: bnd_alloc bnd_layout_encode l_src l_b enc g6_def)
      have step2: "bnd (Buffer_concat2 i b) (\<lambda>joined.
          bnd (Buffer_slice_new joined 0 (1 + length bs)) (\<lambda>data.
          bnd (alloc (Instruction k pid data)) (\<lambda>ix.
          ret ix))) g6
        = bnd (Buffer_slice_new (length g6) 0 (1 + length bs)) (\<lambda>data.
          bnd (alloc (Instruction k pid data)) (\<lambda>ix.
          ret ix)) (g6 @ [Buf (1 # bs @ replicate (1000 - length bs) 0)])"
        by (simp add: Buffer_concat2_def bnd_assoc bnd_read_buffer l6_i l6_b bnd_alloc
            Buffer_concat_def)
      have step3: "bnd (Buffer_slice_new (length g6) 0 (1 + length bs)) (\<lambda>data.
          bnd (alloc (Instruction k pid data)) (\<lambda>ix.
          ret ix)) (g6 @ [Buf (1 # bs @ replicate (1000 - length bs) 0)])
        = (Inr (length g6 + 2),
           g6 @ [Buf (1 # bs @ replicate (1000 - length bs) 0), Buf (1 # bs),
                 Instruction k pid (length g6 + 1)])"
        by (simp add: Buffer_slice_new_def bnd_assoc bnd_read_buffer bnd_alloc bnd_ret
            lookup_def Buffer_slice_def ret_def)
      show ?thesis
        unfolding step1 step2 step3
        using Some True by (simp add: len6 g6)
    qed
  qed
qed

lemma AddLiquidity_heap_cases:
  "AddLiquidity_heap T args accounts p h =
     (case accounts_at h accounts of
        None \<Rightarrow> (Inl TypeError, h)
      | Some acc \<Rightarrow>
          (let n = length h;
               pid = (case p of None \<Rightarrow> PROGRAM_ID | Some q \<Rightarrow> q);
               h4 = h @ map Meta (AddLiquidity_keys acc)
                      @ [Array [n ..< n + 10], Buf [1], Buf (replicate 1000 0)]
           in case args_at h args of
                None \<Rightarrow> (Inl TypeError, h4)
              | Some a \<Rightarrow>
                  (let v = VRec [(''params'', toEncodable T (params a))]
                   in case toBytes (layout T) v of
                        None \<Rightarrow> (Inl EncodingError, h4 @ [Encodable v])
                      | Some bs \<Rightarrow>
                          if length bs \<le> 1000
                          then (Inr (n + 16),
                                h @ map Meta (AddLiquidity_keys acc)
                                  @ [Array [n ..< n + 10], Buf [1],
                                     Buf (bs @ replicate (1000 - length bs) 0),
                                     Encodable v,
                                     Buf (1 # bs @ replicate (1000 - length bs) 0),
                                     Buf (1 # bs),
                                     Instruction (n + 10) pid (n + 15)])
                          else (Inl RangeError, h4 @ [Encodable v]))))"
proof (cases "accounts_at h accounts")
  case None
  then show ?thesis
    by (simp add: AddLiquidity_heap_def Let_def bnd_read_accounts)
next
  case (Some acc)
  note acc = Some
  define h4 where "h4 = h @ map Meta (AddLiquidity_keys acc)
                      @ [Array [length h ..< length h + 10], Buf [1], Buf (replicate 1000 0)]"
  have args4: "args_at h4 args = args_at h args"
    unfolding h4_def by (rule args_at_append) auto
  have len4: "length h4 = length h + 13"
    by (simp add: h4_def length_keys)
  show ?thesis
  proof (cases "args_at h args")
    case None
    then show ?thesis
      using acc args4
      by (simp add: AddLiquidity_heap_def Let_def bnd_read_accounts bnd_alloc bnd_alloc_list
          bnd_read_params length_keys Buffer_from_def Buffer_alloc_def h4_def)
  next
    case (Some a)
    define v where "v = VRec [(''params'', toEncodable T (params a))]"
    have l_src: "lookup (h4 @ [Encodable v]) (length h + 13) = Some (Encodable v)"
      using len4 by (simp add: lookup_def nth_append)
    have l_buf: "lookup (h4 @ [Encodable v]) (length h + 12) = Some (Buf (replicate 1000 0))"
      by (simp add: lookup_def nth_append h4_def length_keys)
    have l_i: "lookup h4 (length h + 11) = Some (Buf [1])"
      by (simp add: lookup_def nth_append h4_def length_keys)
    have l_b: "lookup h4 (length h + 12) = Some (Buf (replicate 1000 0))"
      by (simp add: lookup_def nth_append h4_def length_keys)
    have ne: "length h + 11 \<noteq> length h + 12"
      by simp
    have upd: "h4[length h + 12 := x] = h @ map Meta (AddLiquidity_keys acc)
                      @ [Array [length h ..< length h + 10], Buf [1], x]" for x
      by (simp add: h4_def list_update_append length_keys)
    have run: "AddLiquidity_heap T args accounts p h =
         bnd (alloc (Encodable v)) (\<lambda>src.
         bnd (layout_encode (layout T) src (length h + 12)) (\<lambda>len.
         bnd (Buffer_concat2 (length h + 11) (length h + 12)) (\<lambda>joined.
         bnd (Buffer_slice_new joined 0 (1 + len)) (\<lambda>data.
         bnd (alloc (Instruction (length h + 10)
                (case p of None \<Rightarrow> PROGRAM_ID | Some q \<Rightarrow> q) data)) (\<lambda>ix.
         ret ix))))) h4"
      using acc args4 Some
      by (simp add: AddLiquidity_heap_def Let_def bnd_read_accounts bnd_alloc bnd_alloc_list
          bnd_read_params length_keys Buffer_from_def Buffer_alloc_def h4_def v_def)
    show ?thesis
      unfolding run encode_and_finish [OF l_b l_i ne]
      using acc Some
      by (simp add: Let_def v_def len4 upd split: option.splits) (simp add: h4_def)
  qed
qed

lemma those_map_Some: "those (map Some xs) = Some xs"
  by (induction xs) simp_all

lemma meta_at_fresh:
  "map (meta_at (h @ map Meta ms @ rest)) [length h ..< length h + length ms] = map Some ms"
  by (rule nth_equalityI) (simp_all add: meta_at_def lookup_def nth_append)

lemma those_meta_at_fresh:
  "those (map (meta_at (h @ map Meta ms @ rest)) [length h ..< length h + length ms]) = Some ms"
  by (simp only: meta_at_fresh those_map_Some)

text \<open>The store after a call: the store before it, followed by objects that are no inputs.\<close>

lemma AddLiquidity_heap_extends:
  assumes "AddLiquidity_heap T args accounts p h = (r, h')"
  obtains xs where "h' = h @ xs" and "\<forall>x\<in>set xs. \<not> is_input x"
proof -
  have "\<exists>xs. h' = h @ xs \<and> (\<forall>x\<in>set xs. \<not> is_input x)"
  proof (cases "accounts_at h accounts")
    case None
    then have "h' = h @ []"
      using assms by (simp add: AddLiquidity_heap_cases)
    then show ?thesis by (intro exI [of _ "[]"]) simp
  next
    case (Some acc)
    show ?thesis
      using assms Some
      by (auto simp add: AddLiquidity_heap_cases Let_def split: option.splits if_splits)
  qed
  then show ?thesis using that by blast
qed

lemma AddLiquidity_heap_observed:
  "observed (AddLiquidity_heap T args accounts p h) =
     (case (accounts_at h accounts, args_at h args) of
        (Some acc, Some a) \<Rightarrow> map_sum (\<lambda>e. e) Some (AddLiquidity T a acc p)
      | _ \<Rightarrow> Inl TypeError)"
proof (cases "accounts_at h accounts")
  case None
  then show ?thesis
    by (simp add: AddLiquidity_heap_cases observed_def)
next
  case (Some acc)
  note acc = Some
  show ?thesis
  proof (cases "args_at h args")
    case None
    then show ?thesis
      using acc by (simp add: AddLiquidity_heap_cases observed_def Let_def)
  next
    case (Some a)
    define v where "v = VRec [(''params'', toEncodable T (params a))]"
    show ?thesis
    proof (cases "toBytes (layout T) v")
      case None
      then show ?thesis
        using acc Some
        by (simp add: AddLiquidity_heap_cases observed_def Let_def AddLiquidity_cases v_def)
    next
      case (Some bs)
      note bs = Some
      show ?thesis
      proof (cases "length bs \<le> 1000")
        case False
        then show ?thesis
          using acc \<open>args_at h args = Some a\<close> bs
          by (simp add: AddLiquidity_heap_cases observed_def Let_def AddLiquidity_cases v_def)
      next
        case True
        define pid where "pid = (case p of None \<Rightarrow> PROGRAM_ID | Some q \<Rightarrow> q)"
        define rest where "rest =
          [Array [length h ..< length h + 10], Buf [1],
           Buf (bs @ replicate (1000 - length bs) 0), Encodable v,
           Buf (1 # bs @ replicate (1000 - length bs) 0), Buf (1 # bs),
           Instruction (length h + 10) pid (length h + 15) :: 'a obj]"
        define h' where "h' = h @ map Meta (AddLiquidity_keys acc) @ rest"
        have run: "AddLiquidity_heap T args accounts p h = (Inr (length h + 16), h')"
          using acc \<open>args_at h args = Some a\<close> bs True
          by (simp add: AddLiquidity_heap_cases Let_def v_def h'_def rest_def pid_def)
        have l_ix: "lookup h' (length h + 16)
                    = Some (Instruction (length h + 10) pid (length h + 15))"
          by (simp add: h'_def rest_def lookup_def nth_append length_keys)
        have l_k: "lookup h' (length h + 10) = Some (Array [length h ..< length h + 10])"
          by (simp add: h'_def rest_def lookup_def nth_append length_keys)
        have l_d: "lookup h' (length h + 15) = Some (Buf (1 # bs))"
          by (simp add: h'_def rest_def lookup_def nth_append length_keys)
        have metas: "those (map (meta_at h') [length h ..< length h + 10])
                     = Some (AddLiquidity_keys acc)"
          using those_meta_at_fresh [of h "AddLiquidity_keys acc" rest]
          by (simp add: h'_def length_keys)
        have "instruction_at h' (length h + 16)
              = Some \<lparr>keys = AddLiquidity_keys acc, programId = pid, data = 1 # bs\<rparr>"
          by (simp add: instruction_at_def l_ix l_k l_d metas)
        then show ?thesis
          using acc \<open>args_at h args = Some a\<close> bs True
          by (simp add: run observed_def AddLiquidity_cases v_def pid_def)
      qed
    qed
  qed
qed

lemma order_store_args: "args_at order_store 1 = Some order_args"
  by (simp add: args_at_def lookup_def order_store_def order_args_def)

lemma order_store_accounts: "accounts_at order_store 2 = Some all_accounts"
  by (simp add: accounts_at_def lookup_def order_store_def)

lemma other_store_args: "args_at other_store 3 = Some order_args"
  by (simp add: args_at_def lookup_def other_store_def order_args_def)

lemma other_store_accounts: "accounts_at other_store 0 = Some all_accounts"
  by (simp add: accounts_at_def lookup_def other_store_def)

lemma AddLiquidity_heap_success:
  assumes "AddLiquidity_heap T args accounts p h = (Inr ix, h')"
  obtains acc pid v b1 b2 b3
  where "ix = length h + 16"
    and "h' = h @ map Meta (AddLiquidity_keys acc)
                @ [Array [length h ..< length h + 10], Buf [1], Buf b1, Encodable v,
                   Buf b2, Buf b3, Instruction (length h + 10) pid (length h + 15)]"
  using assms
  by (auto simp add: AddLiquidity_heap_cases Let_def split: option.splits if_splits)

lemma order_run:
  "AddLiquidity_heap order_params 1 2 None order_store = (Inr 19, order_store_after)"
proof -
  have len: "length order_store = 3"
    by (simp add: order_store_def)
  have keys: "AddLiquidity_keys all_accounts = keys order_instruction"
    by (simp add: AddLiquidity_keys_def all_accounts_def order_instruction_def)
  have bytes: "toBytes (layout order_params) (VRec [(''params'', params order_args)])
               = Some order_bytes"
    using order_toBytes by (simp add: order_params_def)
  have lenb: "length order_bytes = 17"
    by (simp add: order_bytes_def)
  have enc: "toEncodable order_params (params order_args) = params order_args"
    by (simp add: order_params_def)
  have dat: "data order_instruction = 1 # order_bytes"
    by (simp add: order_instruction_def order_bytes_def)
  have pid: "programId order_instruction = PROGRAM_ID"
    by (simp add: order_instruction_def PROGRAM_ID_def PROGRAM_ID_IDL_def)
  show ?thesis
    unfolding AddLiquidity_heap_cases order_store_args order_store_accounts
    by (simp add: Let_def len keys enc bytes lenb order_store_after_def dat pid)
qed

section \<open>Properties of the builder\<close>

text \<open>
  C1. For valid arguments (the layout accepts the encodable params, with encoding
  \<open>bs\<close>), the data of every instruction that \<open>AddLiquidity\<close> returns is the one-byte
  discriminator 1 followed by \<open>bs\<close>, of length \<open>1 + length bs\<close>. The same holds for a
  scratch buffer of any size, so nothing of the scratch buffer beyond the encoded
  length reaches the output; and the builder does return an instruction whenever the
  scratch buffer is at least as long as the encoding.
\<close>

theorem AddLiquidity_data_exact:
  assumes "toBytes (layout T) (VRec [(''params'', toEncodable T (params args))]) = Some bs"
  shows "(\<forall>ix. AddLiquidity T args accounts p = Inr ix \<longrightarrow>
            data ix = Buffer_from [1] @ bs \<and> length (data ix) = 1 + length bs)
       \<and> (\<forall>scratch ix. AddLiquidity_alloc scratch T args accounts p = Inr ix \<longrightarrow>
            data ix = Buffer_from [1] @ bs \<and> length (data ix) = 1 + length bs)
       \<and> (\<forall>scratch. length bs \<le> scratch \<longrightarrow>
            (\<exists>ix. AddLiquidity_alloc scratch T args accounts p = Inr ix))"
  using assms
  by (auto simp: AddLiquidity_cases AddLiquidity_alloc_cases Buffer_from_def
      split: if_splits)

theorem AddLiquidity_data_exact_witness:
  "toBytes (layout order_params)
     (VRec [(''params'', toEncodable order_params (params order_args))]) = Some order_bytes
   \<and> AddLiquidity order_params order_args all_accounts None = Inr order_instruction
   \<and> data order_instruction = Buffer_from [1] @ order_bytes
   \<and> length (data order_instruction) = 1 + length order_bytes
   \<and> AddLiquidity_alloc 17 order_params order_args all_accounts None = Inr order_instruction
   \<and> AddLiquidity_alloc 5000 order_params order_args all_accounts None = Inr order_instruction"
proof -
  note exact = AddLiquidity_data_exact [OF order_toBytes, of all_accounts None]
  from exact AddLiquidity_order
  have "data order_instruction = Buffer_from [1] @ order_bytes
        \<and> length (data order_instruction) = 1 + length order_bytes"
    by blast
  moreover have "AddLiquidity_alloc 17 order_params order_args all_accounts None
                 = Inr order_instruction"
    by (rule AddLiquidity_alloc_order) simp
  moreover have "AddLiquidity_alloc 5000 order_params order_args all_accounts None
                 = Inr order_instruction"
    by (rule AddLiquidity_alloc_order) simp
  ultimately show ?thesis
    using order_toBytes AddLiquidity_order by blast
qed

text \<open>
  C2. Round trip: when encoding a value \<open>x\<close> under a layout succeeds (the layout accepts
  \<open>x\<close> and the bytes fit the buffer), decoding the written buffer at the same offset
  yields \<open>x\<close> again, and reads exactly the bytes that were written. This holds for
  every layout of the library, in particular for the builder's \<open>layout\<close>.
\<close>

theorem encode_decode_roundtrip:
  assumes "encode l x b offset = Inr (b', n)"
  shows "decode l b' offset = Inr (x, n)"
proof -
  obtain bs where bs: "toBytes l x = Some bs"
    using assms by (cases "toBytes l x") (simp_all add: encode_def)
  have fits: "offset + length bs \<le> length b"
    using assms bs by (simp add: encode_def split: if_splits)
  have b': "b' = take offset b @ bs @ drop (offset + length bs) b" and n: "n = length bs"
    using assms bs fits by (auto simp add: encode_def)
  have len: "length b' = length b"
    using fits by (simp add: b')
  have "drop offset b' = bs @ drop (offset + length bs) b"
    using fits by (simp add: b')
  moreover have "parse l (bs @ drop (offset + length bs) b)
                 = Some (x, drop (offset + length bs) b)"
    using bs by (rule toBytes_parse(1))
  ultimately show ?thesis
    using fits len n by (simp add: decode_def)
qed

theorem encode_decode_roundtrip_witness:
  "encode (layout order_params) (VRec [(''params'', params order_args)]) (Buffer_alloc 1000) 0
     = Inr (order_bytes @ replicate 983 0, 17)
   \<and> decode (layout order_params) (order_bytes @ replicate 983 0) 0
     = Inr (VRec [(''params'', params order_args)], 17)"
proof -
  have "toBytes (layout order_params) (VRec [(''params'', params order_args)]) = Some order_bytes"
    using order_toBytes by (simp add: order_params_def)
  then have enc: "encode (layout order_params) (VRec [(''params'', params order_args)])
                    (Buffer_alloc 1000) 0 = Inr (order_bytes @ replicate 983 0, 17)"
    by (simp add: encode_at_0 order_bytes_def)
  from encode_decode_roundtrip [OF enc] enc show ?thesis by simp
qed

text \<open>
  C3. Whenever \<open>AddLiquidity\<close> returns an instruction, its \<open>keys\<close> are the ten metas in the
  order plasmaProgram, logAuthority, pool, trader, lpPosition, baseAccount,
  quoteAccount, baseVault, quoteVault, tokenProgram; each meta carries the address
  bound to its role, and the signer and writable flags are the fixed lists below,
  whatever the binding. The binding is a record: the result depends on the value of each
  role only, not on how the record was built.
\<close>

theorem AddLiquidity_keys_order:
  assumes "AddLiquidity T args accounts p = Inr ix"
  shows "keys ix =
           [\<lparr>pubkey = plasmaProgram accounts, isSigner = False, isWritable = False\<rparr>,
            \<lparr>pubkey = logAuthority accounts, isSigner = False, isWritable = False\<rparr>,
            \<lparr>pubkey = pool accounts, isSigner = False, isWritable = True\<rparr>,
            \<lparr>pubkey = trader accounts, isSigner = True, isWritable = False\<rparr>,
            \<lparr>pubkey = lpPosition accounts, isSigner = False, isWritable = True\<rparr>,
            \<lparr>pubkey = baseAccount accounts, isSigner = False, isWritable = True\<rparr>,
            \<lparr>pubkey = quoteAccount accounts, isSigner = False, isWritable = True\<rparr>,
            \<lparr>pubkey = baseVault accounts, isSigner = False, isWritable = True\<rparr>,
            \<lparr>pubkey = quoteVault accounts, isSigner = False, isWritable = True\<rparr>,
            \<lparr>pubkey = tokenProgram accounts, isSigner = False, isWritable = False\<rparr>]
         \<and> map isSigner (keys ix) =
           [False, False, False, True, False, False, False, False, False, False]
         \<and> map isWritable (keys ix) =
           [False, False, True, False, True, True, True, True, True, False]"
  using assms
  by (auto simp: AddLiquidity_cases AddLiquidity_keys_def split: option.splits if_splits)

theorem AddLiquidity_keys_order_witness:
  "AddLiquidity order_params order_args all_accounts None = Inr order_instruction
   \<and> map pubkey (keys order_instruction) =
       [Some (PublicKey ''plasmaProgram''), Some (PublicKey ''logAuthority''),
        Some (PublicKey ''pool''), Some (PublicKey ''trader''),
        Some (PublicKey ''lpPosition''), Some (PublicKey ''baseAccount''),
        Some (PublicKey ''quoteAccount''), Some (PublicKey ''baseVault''),
        Some (PublicKey ''quoteVault''), Some (PublicKey ''tokenProgram'')]
   \<and> map isSigner (keys order_instruction) =
       [False, False, False, True, False, False, False, False, False, False]
   \<and> map isWritable (keys order_instruction) =
       [False, False, True, False, True, True, True, True, True, False]"
  using AddLiquidity_keys_order [OF AddLiquidity_order] AddLiquidity_order
  by (simp add: all_accounts_def)

text \<open>
  C4, as stated, fails: with the quote vault absent from the binding the builder does
  not raise \<open>MissingAccountError\<close>; it returns an instruction whose ninth meta has no
  address.
\<close>

theorem AddLiquidity_missing_role_counterexample:
  "quoteVault no_quoteVault = None
   \<and> AddLiquidity order_params order_args no_quoteVault None = Inr no_quoteVault_instruction"
  using AddLiquidity_no_quoteVault by (simp add: no_quoteVault_def)

text \<open>
  C4, amended. The builder does not validate the binding. It never fails with
  \<open>MissingAccountError\<close>; whether it returns an instruction does not depend on the
  binding; and the address listed at each position is whatever the binding holds for
  that role, absent roles included.
\<close>

theorem AddLiquidity_no_account_check:
  "(\<forall>role. AddLiquidity T args accounts p \<noteq> Inl (MissingAccountError role))
   \<and> ((\<exists>ix. AddLiquidity T args accounts p = Inr ix)
        = (\<exists>ix. AddLiquidity T args accounts' p = Inr ix))
   \<and> (\<forall>ix. AddLiquidity T args accounts p = Inr ix \<longrightarrow>
         map pubkey (keys ix) =
           [plasmaProgram accounts, logAuthority accounts, pool accounts, trader accounts,
            lpPosition accounts, baseAccount accounts, quoteAccount accounts,
            baseVault accounts, quoteVault accounts, tokenProgram accounts])"
  by (auto simp: AddLiquidity_cases AddLiquidity_keys_def split: option.splits if_splits)

theorem AddLiquidity_no_account_check_witness:
  "AddLiquidity order_params order_args no_quoteVault None = Inr no_quoteVault_instruction
   \<and> map pubkey (keys no_quoteVault_instruction) =
       [Some (PublicKey ''plasmaProgram''), Some (PublicKey ''logAuthority''),
        Some (PublicKey ''pool''), Some (PublicKey ''trader''),
        Some (PublicKey ''lpPosition''), Some (PublicKey ''baseAccount''),
        Some (PublicKey ''quoteAccount''), Some (PublicKey ''baseVault''),
        None, Some (PublicKey ''tokenProgram'')]"
  using AddLiquidity_no_account_check [of order_params order_args no_quoteVault None all_accounts]
    AddLiquidity_no_quoteVault
  by (simp add: no_quoteVault_def all_accounts_def)

text \<open>
  C5. Encoding is atomic: a call either fails with an error (and returns no
  instruction), or returns an instruction whose data is the discriminator followed by
  the complete encoding of the params, of exactly that length, with all ten metas.
\<close>

theorem AddLiquidity_atomic:
  "AddLiquidity T args accounts p = Inl EncodingError
   \<or> AddLiquidity T args accounts p = Inl RangeError
   \<or> (\<exists>ix bs. AddLiquidity T args accounts p = Inr ix
         \<and> toBytes (layout T) (VRec [(''params'', toEncodable T (params args))]) = Some bs
         \<and> data ix = Buffer_from [1] @ bs
         \<and> length (data ix) = 1 + length bs
         \<and> length (keys ix) = 10)"
  by (auto simp: AddLiquidity_cases AddLiquidity_keys_def Buffer_from_def
      split: option.splits if_splits)

text \<open>
  C6. A call is a function of what its references lead to and of nothing else in the
  store. Two calls with equal arguments, equal bindings and the same program address,
  in any two stores and through any references, are observed to give the same error
  or the same instruction. A call made after any other call of the builder gives what
  it would have given before it. And the observed result is the value of the builder
  as a function of the argument and binding values.
\<close>

theorem AddLiquidity_heap_stateless:
  "(args_at ha argsa = args_at hb argsb \<longrightarrow>
    accounts_at ha accountsa = accounts_at hb accountsb \<longrightarrow>
      observed (AddLiquidity_heap T argsa accountsa p ha)
      = observed (AddLiquidity_heap T argsb accountsb p hb))
   \<and> observed (AddLiquidity_heap T args accounts p
                 (snd (AddLiquidity_heap T' args' accounts' p' h)))
       = observed (AddLiquidity_heap T args accounts p h)
   \<and> (\<forall>a acc. args_at h args = Some a \<longrightarrow> accounts_at h accounts = Some acc \<longrightarrow>
         observed (AddLiquidity_heap T args accounts p h)
         = map_sum (\<lambda>e. e) Some (AddLiquidity T a acc p))"
proof (intro conjI)
  show "args_at ha argsa = args_at hb argsb \<longrightarrow>
    accounts_at ha accountsa = accounts_at hb accountsb \<longrightarrow>
      observed (AddLiquidity_heap T argsa accountsa p ha)
      = observed (AddLiquidity_heap T argsb accountsb p hb)"
    by (simp add: AddLiquidity_heap_observed)
next
  obtain r h' where run: "AddLiquidity_heap T' args' accounts' p' h = (r, h')"
    by (cases "AddLiquidity_heap T' args' accounts' p' h")
  then obtain xs where h': "h' = h @ xs" and xs: "\<forall>x\<in>set xs. \<not> is_input x"
    by (rule AddLiquidity_heap_extends)
  have "args_at h' args = args_at h args" "accounts_at h' accounts = accounts_at h accounts"
    using xs by (simp_all add: h' args_at_append accounts_at_append)
  then show "observed (AddLiquidity_heap T args accounts p
                 (snd (AddLiquidity_heap T' args' accounts' p' h)))
       = observed (AddLiquidity_heap T args accounts p h)"
    by (simp add: run AddLiquidity_heap_observed)
next
  show "\<forall>a acc. args_at h args = Some a \<longrightarrow> accounts_at h accounts = Some acc \<longrightarrow>
         observed (AddLiquidity_heap T args accounts p h)
         = map_sum (\<lambda>e. e) Some (AddLiquidity T a acc p)"
    by (simp add: AddLiquidity_heap_observed)
qed

theorem AddLiquidity_heap_stateless_witness:
  "args_at order_store 1 = args_at other_store 3
   \<and> accounts_at order_store 2 = accounts_at other_store 0
   \<and> observed (AddLiquidity_heap order_params 1 2 None order_store)
       = Inr (Some order_instruction)
   \<and> observed (AddLiquidity_heap order_params 3 0 None other_store)
       = Inr (Some order_instruction)"
proof -
  have a: "args_at order_store 1 = args_at other_store 3"
    by (simp only: order_store_args other_store_args)
  have b: "accounts_at order_store 2 = accounts_at other_store 0"
    by (simp only: order_store_accounts other_store_accounts)
  note st = AddLiquidity_heap_stateless
    [where ha = order_store and argsa = 1 and accountsa = 2
       and hb = other_store and argsb = 3 and accountsb = 0
       and h = order_store and args = 1 and accounts = 2
       and T = order_params and p = None]
  from st order_store_args order_store_accounts
  have c: "observed (AddLiquidity_heap order_params 1 2 None order_store)
           = map_sum (\<lambda>e. e) Some (AddLiquidity order_params order_args all_accounts None)"
    by blast
  from st a b
  have d: "observed (AddLiquidity_heap order_params 1 2 None order_store)
           = observed (AddLiquidity_heap order_params 3 0 None other_store)"
    by blast
  from c have e: "observed (AddLiquidity_heap order_params 1 2 None order_store)
           = Inr (Some order_instruction)"
    by (simp add: AddLiquidity_order)
  from a b d e show ?thesis by (simp only: simp_thms)
qed

text \<open>
  C7. When the caller omits the program address, a returned instruction targets
  \<open>PROGRAM_ID\<close>; when the caller supplies an address \<open>q\<close>, it targets \<open>q\<close>; and the call
  with \<open>q\<close> differs from the call without it in nothing but the program address (same
  failure, or the same instruction with \<open>programId\<close> replaced).
\<close>

theorem AddLiquidity_programId:
  "(\<forall>ix. AddLiquidity T args accounts None = Inr ix \<longrightarrow> programId ix = PROGRAM_ID)
   \<and> (\<forall>q ix. AddLiquidity T args accounts (Some q) = Inr ix \<longrightarrow> programId ix = q)
   \<and> (\<forall>q. AddLiquidity T args accounts (Some q)
           = map_sum (\<lambda>e. e) (\<lambda>ix. ix\<lparr>programId := q\<rparr>) (AddLiquidity T args accounts None))"
  by (auto simp: AddLiquidity_cases split: option.splits if_splits)

theorem AddLiquidity_programId_witness:
  "AddLiquidity order_params order_args all_accounts None = Inr order_instruction
   \<and> programId order_instruction = PROGRAM_ID
   \<and> AddLiquidity order_params order_args all_accounts (Some (PublicKey ''alternate''))
       = Inr (order_instruction\<lparr>programId := PublicKey ''alternate''\<rparr>)
   \<and> programId (order_instruction\<lparr>programId := PublicKey ''alternate''\<rparr>)
       = PublicKey ''alternate''"
proof -
  note pid = AddLiquidity_programId [of order_params order_args all_accounts]
  from pid AddLiquidity_order have a: "programId order_instruction = PROGRAM_ID"
    by blast
  from pid
  have "AddLiquidity order_params order_args all_accounts (Some (PublicKey ''alternate''))
        = map_sum (\<lambda>e. e) (\<lambda>ix. ix\<lparr>programId := PublicKey ''alternate''\<rparr>)
            (AddLiquidity order_params order_args all_accounts None)"
    by blast
  then have b: "AddLiquidity order_params order_args all_accounts (Some (PublicKey ''alternate''))
        = Inr (order_instruction\<lparr>programId := PublicKey ''alternate''\<rparr>)"
    by (simp add: AddLiquidity_order)
  have c: "programId (order_instruction\<lparr>programId := PublicKey ''alternate''\<rparr>)
        = PublicKey ''alternate''"
    by simp
  from a b c AddLiquidity_order show ?thesis by (intro conjI)
qed

text \<open>
  C8. A call leaves every object that existed before it unchanged: the store after the
  call starts with the store before it, so the arguments object, its params record and
  the binding read as before. The returned instruction, its array of metas, each meta
  and its data buffer are at addresses that did not exist before the call.
\<close>

theorem AddLiquidity_heap_frame:
  assumes "AddLiquidity_heap T args accounts p h = (r, h')"
  shows "take (length h) h' = h
       \<and> (\<forall>a<length h. lookup h' a = lookup h a)
       \<and> args_at h' args = args_at h args
       \<and> accounts_at h' accounts = accounts_at h accounts
       \<and> (\<forall>ix. r = Inr ix \<longrightarrow>
            (\<exists>k pid d ms bytes.
               lookup h' ix = Some (Instruction k pid d) \<and> length h \<le> ix
               \<and> lookup h' k = Some (Array ms) \<and> length h \<le> k
               \<and> (\<forall>m\<in>set ms. length h \<le> m \<and> (\<exists>x. lookup h' m = Some (Meta x)))
               \<and> lookup h' d = Some (Buf bytes) \<and> length h \<le> d))"
proof -
  obtain xs where h': "h' = h @ xs" and xs: "\<forall>x\<in>set xs. \<not> is_input x"
    using assms by (rule AddLiquidity_heap_extends)
  have frame: "take (length h) h' = h" "\<forall>a<length h. lookup h' a = lookup h a"
    by (simp_all add: h' lookup_append)
  have inputs: "args_at h' args = args_at h args"
    "accounts_at h' accounts = accounts_at h accounts"
    using xs by (simp_all add: h' args_at_append accounts_at_append)
  have fresh: "\<exists>k pid d ms bytes.
               lookup h' ix = Some (Instruction k pid d) \<and> length h \<le> ix
               \<and> lookup h' k = Some (Array ms) \<and> length h \<le> k
               \<and> (\<forall>m\<in>set ms. length h \<le> m \<and> (\<exists>x. lookup h' m = Some (Meta x)))
               \<and> lookup h' d = Some (Buf bytes) \<and> length h \<le> d"
    if "r = Inr ix" for ix
  proof -
    from assms that have "AddLiquidity_heap T args accounts p h = (Inr ix, h')"
      by simp
    then obtain acc pid v b1 b2 b3 where ix: "ix = length h + 16"
      and st: "h' = h @ map Meta (AddLiquidity_keys acc)
                @ [Array [length h ..< length h + 10], Buf [1], Buf b1, Encodable v,
                   Buf b2, Buf b3, Instruction (length h + 10) pid (length h + 15)]"
      by (rule AddLiquidity_heap_success)
    have l_ix: "lookup h' ix = Some (Instruction (length h + 10) pid (length h + 15))"
      by (simp add: st ix lookup_def nth_append length_keys)
    have l_k: "lookup h' (length h + 10) = Some (Array [length h ..< length h + 10])"
      by (simp add: st lookup_def nth_append length_keys)
    have l_d: "lookup h' (length h + 15) = Some (Buf b3)"
      by (simp add: st lookup_def nth_append length_keys)
    have l_m: "length h \<le> m \<and> (\<exists>x. lookup h' m = Some (Meta x))"
      if "m \<in> set [length h ..< length h + 10]" for m
      using that by (auto simp add: st lookup_def nth_append length_keys)
    have "lookup h' ix = Some (Instruction (length h + 10) pid (length h + 15))
          \<and> length h \<le> ix
          \<and> lookup h' (length h + 10) = Some (Array [length h ..< length h + 10])
          \<and> length h \<le> length h + 10
          \<and> (\<forall>m\<in>set [length h ..< length h + 10].
                length h \<le> m \<and> (\<exists>x. lookup h' m = Some (Meta x)))
          \<and> lookup h' (length h + 15) = Some (Buf b3)
          \<and> length h \<le> length h + 15"
      using l_ix l_k l_d l_m ix by simp
    then show ?thesis by blast
  qed
  from frame inputs fresh show ?thesis by blast
qed

theorem AddLiquidity_heap_frame_witness:
  "AddLiquidity_heap order_params 1 2 None order_store = (Inr 19, order_store_after)
   \<and> take (length order_store) order_store_after = order_store
   \<and> args_at order_store_after 1 = Some order_args
   \<and> accounts_at order_store_after 2 = Some all_accounts"
  using AddLiquidity_heap_frame [OF order_run] order_run order_store_args order_store_accounts
  by (simp only: simp_thms)

text \<open>
  C9. Every returned instruction has exactly ten metas; exactly one is a signer, the
  one at position 3, which holds the trader; exactly six are writable, those of pool,
  lpPosition, baseAccount, quoteAccount, baseVault and quoteVault.
\<close>

theorem AddLiquidity_ten_metas:
  assumes "AddLiquidity T args accounts p = Inr ix"
  shows "length (keys ix) = 10
       \<and> map isSigner (keys ix) =
           [False, False, False, True, False, False, False, False, False, False]
       \<and> length (filter isSigner (keys ix)) = 1
       \<and> pubkey (keys ix ! 3) = trader accounts
       \<and> map isWritable (keys ix) =
           [False, False, True, False, True, True, True, True, True, False]
       \<and> length (filter isWritable (keys ix)) = 6
       \<and> map pubkey (filter isWritable (keys ix)) =
           [pool accounts, lpPosition accounts, baseAccount accounts,
            quoteAccount accounts, baseVault accounts, quoteVault accounts]"
proof -
  have k: "keys ix = AddLiquidity_keys accounts"
    using assms by (auto simp: AddLiquidity_cases split: option.splits if_splits)
  show ?thesis
    unfolding k by (simp add: AddLiquidity_keys_def)
qed

theorem AddLiquidity_ten_metas_witness:
  "AddLiquidity order_params order_args all_accounts None = Inr order_instruction
   \<and> length (keys order_instruction) = 10
   \<and> pubkey (keys order_instruction ! 3) = Some (PublicKey ''trader'')
   \<and> length (filter isSigner (keys order_instruction)) = 1
   \<and> length (filter isWritable (keys order_instruction)) = 6"
  using AddLiquidity_ten_metas [OF AddLiquidity_order] AddLiquidity_order
  by (simp add: all_accounts_def)

text \<open>
  C10. The scratch buffer has 1000 bytes. For arguments the layout accepts, with
  encoding \<open>bs\<close>: when \<open>bs\<close> fits in 1000 bytes the builder returns an instruction with the
  whole encoding; when \<open>bs\<close> is longer than 1000 bytes the builder fails with the
  range error of the write, and returns no truncated payload.
\<close>

theorem AddLiquidity_scratch_1000:
  assumes "toBytes (layout T) (VRec [(''params'', toEncodable T (params args))]) = Some bs"
  shows "AddLiquidity T args accounts p = AddLiquidity_alloc 1000 T args accounts p
       \<and> (length bs \<le> 1000 \<longrightarrow>
            (\<exists>ix. AddLiquidity T args accounts p = Inr ix \<and> data ix = Buffer_from [1] @ bs))
       \<and> (1000 < length bs \<longrightarrow> AddLiquidity T args accounts p = Inl RangeError)"
proof -
  have "AddLiquidity T args accounts p = AddLiquidity_alloc 1000 T args accounts p"
    by (simp add: AddLiquidity_def)
  moreover have "length bs \<le> 1000 \<longrightarrow>
      (\<exists>ix. AddLiquidity T args accounts p = Inr ix \<and> data ix = Buffer_from [1] @ bs)"
    using assms by (simp add: AddLiquidity_cases Buffer_from_def)
  moreover have "1000 < length bs \<longrightarrow> AddLiquidity T args accounts p = Inl RangeError"
    using assms by (simp add: AddLiquidity_cases)
  ultimately show ?thesis by (intro conjI)
qed

theorem AddLiquidity_scratch_1000_witness:
  "toBytes (layout order_params)
     (VRec [(''params'', toEncodable order_params (params order_args))]) = Some order_bytes
   \<and> length order_bytes \<le> 1000
   \<and> AddLiquidity order_params order_args all_accounts None = Inr order_instruction
   \<and> toBytes (layout bytes_params)
       (VRec [(''params'', toEncodable bytes_params (params long_args))])
       = Some (le_bytes 4 1001 @ replicate 1001 0)
   \<and> 1000 < length (le_bytes 4 1001 @ replicate 1001 0)
   \<and> AddLiquidity bytes_params long_args all_accounts None = Inl RangeError"
proof -
  have short: "length order_bytes \<le> 1000"
    by (simp add: order_bytes_def)
  have long: "1000 < length (le_bytes 4 1001 @ replicate 1001 (0::byte))"
    by (simp add: length_le_bytes)
  from AddLiquidity_scratch_1000 [OF long_toBytes, of all_accounts None] long
  have "AddLiquidity bytes_params long_args all_accounts None = Inl RangeError"
    by blast
  moreover from AddLiquidity_scratch_1000 [OF order_toBytes, of all_accounts None] short
  have "\<exists>ix. AddLiquidity order_params order_args all_accounts None = Inr ix"
    by blast
  ultimately show ?thesis
    using short long order_toBytes long_toBytes AddLiquidity_order
    by (intro conjI)
qed

end
